theory Spec2Isabelle
  imports Complex_Main
begin

section \<open>Errors raised by the request handlers\<close>

text \<open>
  The handlers of \<^verbatim>\<open>app/api/routes.py\<close> raise
  \<^verbatim>\<open>HTTPException(status_code=404, detail="Item not found")\<close>; the guard of
  \<^verbatim>\<open>app/core/auth.py\<close> raises \<^verbatim>\<open>APIKeyError()\<close>, the subclass of
  \<^verbatim>\<open>HTTPException\<close> whose constructor fixes status 401, the detail
  "Invalid or missing API key" and the header \<^verbatim>\<open>WWW-Authenticate: Bearer\<close>.
  \<^verbatim>\<open>IndexError\<close> is what Python raises when a list is written or popped at an index
  that is out of range. Every raise is a value \<open>Inl e\<close> of the result.
\<close>

datatype error = HTTPException nat string | APIKeyError | IndexError

abbreviation NotFound :: error where
  "NotFound \<equiv> HTTPException 404 ''Item not found''"

section \<open>The authorization guard (\<^verbatim>\<open>app/core/auth.py\<close>)\<close>

text \<open>
  Of the \<^verbatim>\<open>Settings\<close> class in \<^verbatim>\<open>app/core/config.py\<close> the guard reads two fields only:
  \<^verbatim>\<open>API_KEY: Optional[str] = None\<close> and \<^verbatim>\<open>ENABLE_API_KEY_AUTH: bool = True\<close>.
  The record keeps those two. The settings object is a module-level global in the
  source; here it is an argument.
\<close>

record Settings =
  API_KEY :: "string option"
  ENABLE_API_KEY_AUTH :: bool

text \<open>
  \<^verbatim>\<open>HTTPAuthorizationCredentials\<close> is the value the \<^verbatim>\<open>HTTPBearer(auto_error=False)\<close>
  scheme hands to the guard: the scheme word and the token of the Authorization header,
  or \<^verbatim>\<open>None\<close> when the header is absent.
\<close>

record HTTPAuthorizationCredentials =
  scheme :: string
  credentials :: string

text \<open>
  \<^verbatim>\<open>not settings.API_KEY\<close> is true for \<^verbatim>\<open>None\<close> and for the empty string.
  \<^verbatim>\<open>not credentials\<close> is true exactly for \<^verbatim>\<open>None\<close> (the credentials object defines
  neither a length nor a truth value). \<^verbatim>\<open>credentials.credentials != settings.API_KEY\<close>
  compares a string with an optional string.
\<close>

definition get_api_key ::
  "Settings \<Rightarrow> HTTPAuthorizationCredentials option \<Rightarrow> error + string" where
  "get_api_key settings creds =
     (if \<not> ENABLE_API_KEY_AUTH settings
          \<or> (case API_KEY settings of None \<Rightarrow> True | Some k \<Rightarrow> k = [])
      then Inr ''bypass''
      else (case creds of
              None \<Rightarrow> Inl APIKeyError
            | Some c \<Rightarrow>
                if Some (credentials c) \<noteq> API_KEY settings then Inl APIKeyError
                else Inr (credentials c)))"

section \<open>The item registry (\<^verbatim>\<open>app/api/routes.py\<close>)\<close>

text \<open>
  \<^verbatim>\<open>ItemCreate\<close> and \<^verbatim>\<open>Item\<close> are the two pydantic models. The field \<^verbatim>\<open>id\<close> is
  named \<open>id_field\<close>, since \<open>id\<close> is the identity function of HOL. The price is a
  Python float that the handlers store and return and never compute with, so its type
  is a parameter \<open>'p\<close>. The fields of \<^verbatim>\<open>ItemCreate\<close> are written qualified
  (\<open>ItemCreate.name\<close>); the unqualified names are those of \<^verbatim>\<open>Item\<close>.
\<close>

record 'p ItemCreate =
  name :: string
  description :: string
  price :: 'p

record 'p Item =
  id_field :: int
  name :: string
  description :: string
  price :: 'p

text \<open>\<^verbatim>\<open>Item(id=i, **item.dict())\<close>, the expression both create and update build.\<close>

definition Item_of :: "int \<Rightarrow> 'p ItemCreate \<Rightarrow> 'p Item" where
  "Item_of i item =
     \<lparr>id_field = i, name = ItemCreate.name item,
      description = ItemCreate.description item, price = ItemCreate.price item\<rparr>"

text \<open>
  The registry \<^verbatim>\<open>items_db\<close> is a module-level list, mutated in place. Every handler
  takes the list and returns its result together with the list afterwards. The
  argument \<^verbatim>\<open>_: str = Depends(require_api_key)\<close> of each handler is the token the
  guard returned; no handler body reads it, and it is left out. The
  \<^verbatim>\<open>logger.info\<close> calls do not touch the registry and are left out too.
\<close>

text \<open>\<^verbatim>\<open>for item in items_db: if item.id == item_id: return item\<close>, then the raise.\<close>

fun get_item_loop :: "'p Item list \<Rightarrow> int \<Rightarrow> error + 'p Item" where
  "get_item_loop [] item_id = Inl NotFound"
| "get_item_loop (item # rest) item_id =
     (if id_field item = item_id then Inr item else get_item_loop rest item_id)"

definition get_item :: "'p Item list \<Rightarrow> int \<Rightarrow> (error + 'p Item) \<times> 'p Item list" where
  "get_item items_db item_id = (get_item_loop items_db item_id, items_db)"

text \<open>\<^verbatim>\<open>new_id = len(items_db) + 1\<close>; the new item is appended and returned.\<close>

definition create_item :: "'p Item list \<Rightarrow> 'p ItemCreate \<Rightarrow> 'p Item \<times> 'p Item list" where
  "create_item items_db item =
     (let new_id = int (length items_db) + 1;
          new_item = Item_of new_id item
      in (new_item, items_db @ [new_item]))"

text \<open>
  \<^verbatim>\<open>for i, item in enumerate(items_db)\<close>: the loop carries the index \<open>i\<close> and the
  entries not yet visited, beside the whole list that \<^verbatim>\<open>items_db[i] = updated_item\<close>
  writes to. The assignment raises \<^verbatim>\<open>IndexError\<close> out of range.
\<close>

fun update_item_loop ::
  "nat \<Rightarrow> 'p Item list \<Rightarrow> 'p Item list \<Rightarrow> int \<Rightarrow> 'p ItemCreate
   \<Rightarrow> (error + 'p Item) \<times> 'p Item list" where
  "update_item_loop i [] items_db item_id item_update = (Inl NotFound, items_db)"
| "update_item_loop i (item # rest) items_db item_id item_update =
     (if id_field item = item_id then
        (let updated_item = Item_of item_id item_update
         in if i < length items_db
            then (Inr updated_item, items_db[i := updated_item])
            else (Inl IndexError, items_db))
      else update_item_loop (Suc i) rest items_db item_id item_update)"

definition update_item ::
  "'p Item list \<Rightarrow> int \<Rightarrow> 'p ItemCreate \<Rightarrow> (error + 'p Item) \<times> 'p Item list" where
  "update_item items_db item_id item_update =
     update_item_loop 0 items_db items_db item_id item_update"

text \<open>\<^verbatim>\<open>str(n)\<close> for an integer: the decimal digits, with a minus sign below zero.\<close>

fun str_nat :: "nat \<Rightarrow> string" where
  "str_nat n =
     (if n < 10 then [''0123456789'' ! n]
      else str_nat (n div 10) @ [''0123456789'' ! (n mod 10)])"

definition str_int :: "int \<Rightarrow> string" where
  "str_int n = (if n < 0 then CHR ''-'' # str_nat (nat (- n)) else str_nat (nat n))"

text \<open>
  \<^verbatim>\<open>items_db.pop(i)\<close> removes the entry at index \<open>i\<close> and shifts the later ones;
  it raises \<^verbatim>\<open>IndexError\<close> out of range. The handler returns the dictionary
  \<^verbatim>\<open>{"message": f"Item {item_id} deleted successfully"}\<close>, modelled by its one value.
\<close>

fun delete_item_loop ::
  "nat \<Rightarrow> 'p Item list \<Rightarrow> 'p Item list \<Rightarrow> int \<Rightarrow> (error + string) \<times> 'p Item list" where
  "delete_item_loop i [] items_db item_id = (Inl NotFound, items_db)"
| "delete_item_loop i (item # rest) items_db item_id =
     (if id_field item = item_id then
        (if i < length items_db
         then (Inr (''Item '' @ str_int item_id @ '' deleted successfully''),
               take i items_db @ drop (Suc i) items_db)
         else (Inl IndexError, items_db))
      else delete_item_loop (Suc i) rest items_db item_id)"

definition delete_item ::
  "'p Item list \<Rightarrow> int \<Rightarrow> (error + string) \<times> 'p Item list" where
  "delete_item items_db item_id = delete_item_loop 0 items_db items_db item_id"

section \<open>Sequences of requests\<close>

text \<open>
  A registry state is reachable when some sequence of requests leads to it from the
  empty list the module starts with. \<open>handle\<close> is the registry after one request,
  whatever the request returned; \<open>run\<close> is the registry after a sequence.
\<close>

datatype 'p request =
    GetItem int
  | CreateItem "'p ItemCreate"
  | UpdateItem int "'p ItemCreate"
  | DeleteItem int

fun handle :: "'p Item list \<Rightarrow> 'p request \<Rightarrow> 'p Item list" where
  "handle items_db (GetItem item_id) = snd (get_item items_db item_id)"
| "handle items_db (CreateItem item) = snd (create_item items_db item)"
| "handle items_db (UpdateItem item_id item_update) =
     snd (update_item items_db item_id item_update)"
| "handle items_db (DeleteItem item_id) = snd (delete_item items_db item_id)"

definition run :: "'p request list \<Rightarrow> 'p Item list" where
  "run reqs = foldl handle [] reqs"

text \<open>The items a run of create requests returns, in order, and the registry after it.\<close>

fun create_items ::
  "'p Item list \<Rightarrow> 'p ItemCreate list \<Rightarrow> 'p Item list \<times> 'p Item list" where
  "create_items items_db [] = ([], items_db)"
| "create_items items_db (item # later) =
     (let (new_item, db1) = create_item items_db item;
          (new_items, db2) = create_items db1 later
      in (new_item # new_items, db2))"

fun is_delete :: "'p request \<Rightarrow> bool" where
  "is_delete (DeleteItem item_id) = True"
| "is_delete r = False"

fun is_create :: "'p request \<Rightarrow> bool" where
  "is_create (CreateItem item) = True"
| "is_create r = False"

text \<open>Three request bodies, for the concrete runs below.\<close>


definition widget :: "real ItemCreate" where
  "widget = \<lparr>ItemCreate.name = ''Widget'', description = ''A widget'', price = 999 / 100\<rparr>"

definition gadget :: "real ItemCreate" where
  "gadget = \<lparr>ItemCreate.name = ''Gadget'', description = '''', price = 5\<rparr>"

definition gizmo :: "real ItemCreate" where
  "gizmo = \<lparr>ItemCreate.name = ''Gizmo'', description = ''A gizmo'', price = 25 / 2\<rparr>"

section \<open>The three scans stop at the first entry whose id matches\<close>

lemma get_item_loop_absent:
  "item_id \<notin> id_field ` set xs \<Longrightarrow> get_item_loop xs item_id = Inl NotFound"
  by (induction xs) auto

lemma get_item_loop_first:
  "item_id \<notin> id_field ` set pre \<Longrightarrow> id_field it = item_id
   \<Longrightarrow> get_item_loop (pre @ it # post) item_id = Inr it"
  by (induction pre) auto

lemma update_item_loop_absent:
  "item_id \<notin> id_field ` set rest
   \<Longrightarrow> update_item_loop i rest db item_id upd = (Inl NotFound, db)"
  by (induction rest arbitrary: i) auto

lemma update_item_loop_first:
  "item_id \<notin> id_field ` set mid \<Longrightarrow> id_field it = item_id
   \<Longrightarrow> update_item_loop (length pre) (mid @ it # post) (pre @ mid @ it # post) item_id upd
       = (Inr (Item_of item_id upd), pre @ mid @ Item_of item_id upd # post)"
proof (induction mid arbitrary: pre)
  case Nil
  then show ?case by (simp add: Let_def)
next
  case (Cons a mid)
  from Cons.prems have a: "id_field a \<noteq> item_id" and m: "item_id \<notin> id_field ` set mid"
    by auto
  have "update_item_loop (length (pre @ [a])) (mid @ it # post) ((pre @ [a]) @ mid @ it # post) item_id upd
       = (Inr (Item_of item_id upd), (pre @ [a]) @ mid @ Item_of item_id upd # post)"
    by (rule Cons.IH [OF m Cons.prems(2)])
  with a show ?case by simp
qed

lemma delete_item_loop_absent:
  "item_id \<notin> id_field ` set rest
   \<Longrightarrow> delete_item_loop i rest db item_id = (Inl NotFound, db)"
  by (induction rest arbitrary: i) auto

lemma delete_item_loop_first:
  "item_id \<notin> id_field ` set mid \<Longrightarrow> id_field it = item_id
   \<Longrightarrow> delete_item_loop (length pre) (mid @ it # post) (pre @ mid @ it # post) item_id
       = (Inr (''Item '' @ str_int item_id @ '' deleted successfully''), pre @ mid @ post)"
proof (induction mid arbitrary: pre)
  case Nil
  then show ?case by simp
next
  case (Cons a mid)
  from Cons.prems have a: "id_field a \<noteq> item_id" and m: "item_id \<notin> id_field ` set mid"
    by auto
  have "delete_item_loop (length (pre @ [a])) (mid @ it # post) ((pre @ [a]) @ mid @ it # post) item_id
       = (Inr (''Item '' @ str_int item_id @ '' deleted successfully''), (pre @ [a]) @ mid @ post)"
    by (rule Cons.IH [OF m Cons.prems(2)])
  with a show ?case by simp
qed

lemma first_match:
  assumes "item_id \<in> id_field ` set xs"
  obtains pre it post where "xs = pre @ it # post" "id_field it = item_id"
    "item_id \<notin> id_field ` set pre"
proof -
  from assms have "\<exists>x\<in>set xs. id_field x = item_id" by auto
  then obtain pre it post where s: "xs = pre @ it # post" "id_field it = item_id"
    and n: "\<forall>y\<in>set pre. id_field y \<noteq> item_id"
    by (auto dest!: split_list_first_prop)
  from n have "item_id \<notin> id_field ` set pre" by blast
  with s show ?thesis by (rule that)
qed

lemma get_item_first:
  "item_id \<notin> id_field ` set pre \<Longrightarrow> id_field it = item_id
   \<Longrightarrow> get_item (pre @ it # post) item_id = (Inr it, pre @ it # post)"
  by (simp add: get_item_def get_item_loop_first)

lemma update_item_first:
  "item_id \<notin> id_field ` set pre \<Longrightarrow> id_field it = item_id
   \<Longrightarrow> update_item (pre @ it # post) item_id upd
       = (Inr (Item_of item_id upd), pre @ Item_of item_id upd # post)"
  using update_item_loop_first [of item_id pre it "[]" post upd]
  by (simp add: update_item_def)

lemma delete_item_first:
  "item_id \<notin> id_field ` set pre \<Longrightarrow> id_field it = item_id
   \<Longrightarrow> delete_item (pre @ it # post) item_id
       = (Inr (''Item '' @ str_int item_id @ '' deleted successfully''), pre @ post)"
  using delete_item_loop_first [of item_id pre it "[]" post]
  by (simp add: delete_item_def)

lemma get_item_absent:
  "item_id \<notin> id_field ` set db \<Longrightarrow> get_item db item_id = (Inl NotFound, db)"
  by (simp add: get_item_def get_item_loop_absent)

lemma update_item_absent:
  "item_id \<notin> id_field ` set db \<Longrightarrow> update_item db item_id upd = (Inl NotFound, db)"
  by (simp add: update_item_def update_item_loop_absent)

lemma delete_item_absent:
  "item_id \<notin> id_field ` set db \<Longrightarrow> delete_item db item_id = (Inl NotFound, db)"
  by (simp add: delete_item_def delete_item_loop_absent)

lemma run_simps:
  "run [] = []"
  "run (reqs @ [r]) = handle (run reqs) r"
  by (simp_all add: run_def)

lemma run_two_one_deleted:
  "run [CreateItem widget, CreateItem gadget, DeleteItem 1] = [Item_of 2 gadget]"
  by (simp add: run_def create_item_def delete_item_def Item_of_def Let_def)

lemma run_dup:
  "run [CreateItem widget, CreateItem gadget, DeleteItem 1, CreateItem gizmo] = [Item_of 2 gadget, Item_of 2 gizmo]"
  by (simp add: run_def create_item_def delete_item_def Item_of_def Let_def)

section \<open>The authorization guard\<close>

text \<open>
  C2. When authentication is disabled, or the configured key is unset or empty, the guard
  returns the token "bypass" whatever was presented. Otherwise it returns the presented
  credential exactly when that credential equals the configured key, and raises
  \<^verbatim>\<open>APIKeyError\<close> (401) for every other credential, a missing or empty one included.
\<close>

theorem get_api_key_authorize:
  "(\<not> ENABLE_API_KEY_AUTH settings \<or> API_KEY settings = None \<or> API_KEY settings = Some []
      \<longrightarrow> get_api_key settings creds = Inr ''bypass'')
   \<and> (ENABLE_API_KEY_AUTH settings \<and> API_KEY settings = Some k \<and> k \<noteq> []
      \<longrightarrow> get_api_key settings creds =
            (case creds of
               None \<Rightarrow> Inl APIKeyError
             | Some c \<Rightarrow> if credentials c = k then Inr (credentials c) else Inl APIKeyError))"
  by (auto simp: get_api_key_def split: option.splits)

theorem get_api_key_authorize_witness:
  "get_api_key \<lparr>API_KEY = Some ''s3cret'', ENABLE_API_KEY_AUTH = True\<rparr>
      (Some \<lparr>scheme = ''Bearer'', credentials = ''s3cret''\<rparr>) = Inr ''s3cret''
   \<and> get_api_key \<lparr>API_KEY = Some ''s3cret'', ENABLE_API_KEY_AUTH = True\<rparr>
      (Some \<lparr>scheme = ''Bearer'', credentials = ''S3cret''\<rparr>) = Inl APIKeyError
   \<and> get_api_key \<lparr>API_KEY = Some ''s3cret'', ENABLE_API_KEY_AUTH = True\<rparr>
      (Some \<lparr>scheme = ''Bearer'', credentials = ''''\<rparr>) = Inl APIKeyError
   \<and> get_api_key \<lparr>API_KEY = Some ''s3cret'', ENABLE_API_KEY_AUTH = True\<rparr> None
      = Inl APIKeyError
   \<and> get_api_key \<lparr>API_KEY = Some ''s3cret'', ENABLE_API_KEY_AUTH = False\<rparr> None
      = Inr ''bypass''
   \<and> get_api_key \<lparr>API_KEY = None, ENABLE_API_KEY_AUTH = True\<rparr>
      (Some \<lparr>scheme = ''Bearer'', credentials = ''anything''\<rparr>) = Inr ''bypass''
   \<and> get_api_key \<lparr>API_KEY = Some '''', ENABLE_API_KEY_AUTH = True\<rparr> None
      = Inr ''bypass''"
  using
    get_api_key_authorize [of "\<lparr>API_KEY = Some ''s3cret'', ENABLE_API_KEY_AUTH = True\<rparr>"
      "Some \<lparr>scheme = ''Bearer'', credentials = ''s3cret''\<rparr>" "''s3cret''"]
    get_api_key_authorize [of "\<lparr>API_KEY = Some ''s3cret'', ENABLE_API_KEY_AUTH = True\<rparr>"
      "Some \<lparr>scheme = ''Bearer'', credentials = ''S3cret''\<rparr>" "''s3cret''"]
    get_api_key_authorize [of "\<lparr>API_KEY = Some ''s3cret'', ENABLE_API_KEY_AUTH = True\<rparr>"
      "Some \<lparr>scheme = ''Bearer'', credentials = ''''\<rparr>" "''s3cret''"]
    get_api_key_authorize [of "\<lparr>API_KEY = Some ''s3cret'', ENABLE_API_KEY_AUTH = True\<rparr>"
      None "''s3cret''"]
    get_api_key_authorize [of "\<lparr>API_KEY = Some ''s3cret'', ENABLE_API_KEY_AUTH = False\<rparr>"
      None "''s3cret''"]
    get_api_key_authorize [of "\<lparr>API_KEY = None, ENABLE_API_KEY_AUTH = True\<rparr>"
      "Some \<lparr>scheme = ''Bearer'', credentials = ''anything''\<rparr>" "''x''"]
    get_api_key_authorize [of "\<lparr>API_KEY = Some '''', ENABLE_API_KEY_AUTH = True\<rparr>"
      None "''x''"]
  by simp

section \<open>Ids handed out by create\<close>

lemma length_update_item: "length (snd (update_item db item_id upd)) = length db"
proof (cases "item_id \<in> id_field ` set db")
  case True
  then obtain pre it post where "db = pre @ it # post" "id_field it = item_id"
    "item_id \<notin> id_field ` set pre" by (rule first_match)
  then show ?thesis by (simp add: update_item_first)
next
  case False
  then show ?thesis by (simp add: update_item_absent)
qed

lemma length_handle:
  "\<not> is_delete r \<Longrightarrow> length (handle db r) = length db + (if is_create r then 1 else 0)"
  by (cases r) (simp_all add: get_item_def create_item_def Let_def length_update_item)

lemma length_run:
  "\<forall>r\<in>set reqs. \<not> is_delete r \<Longrightarrow> length (run reqs) = length (filter is_create reqs)"
proof (induction reqs rule: rev_induct)
  case Nil
  show ?case by (simp add: run_simps)
next
  case (snoc r reqs)
  then show ?case by (simp add: run_simps length_handle)
qed

lemma upt_step: "[Suc n ..< Suc n + Suc m] = Suc n # [Suc (Suc n) ..< Suc (Suc n) + m]"
  by (simp add: upt_conv_Cons del: upt_Suc)

lemma create_items_ids:
  "map id_field (fst (create_items db inputs))
     = map int [Suc (length db) ..< Suc (length db) + length inputs]"
proof (induction inputs arbitrary: db)
  case Nil
  show ?case by simp
next
  case (Cons f inputs)
  let ?new = "Item_of (int (length db) + 1) f"
  have c: "create_item db f = (?new, db @ [?new])"
    by (simp add: create_item_def Let_def)
  have "map id_field (fst (create_items (db @ [?new]) inputs))
     = map int [Suc (Suc (length db)) ..< Suc (Suc (length db)) + length inputs]"
    using Cons.IH [of "db @ [?new]"] by simp
  moreover have "id_field ?new = int (Suc (length db))"
    by (simp add: Item_of_def)
  moreover have "[Suc (length db) ..< Suc (length db) + length (f # inputs)]
     = Suc (length db) # [Suc (Suc (length db)) ..< Suc (Suc (length db)) + length inputs]"
    using upt_step [of "length db" "length inputs"] by simp
  ultimately show ?case
    by (simp only: create_items.simps c Let_def split_conv fst_conv snd_conv list.map split_beta)
qed

text \<open>
  C3. From any registry reached without a delete request, a run of create requests
  returns the ids \<open>c + 1, c + 2, ...\<close>, where \<open>c\<close> is the number of items created
  before: the k-th item ever created gets id k, and the ids returned are strictly
  increasing.
\<close>

theorem create_item_ids_creation_order:
  assumes "\<forall>r\<in>set reqs. \<not> is_delete r"
  shows "map id_field (fst (create_items (run reqs) inputs))
           = map int [Suc (length (filter is_create reqs)) ..<
                      Suc (length (filter is_create reqs)) + length inputs]
         \<and> sorted_wrt (<) (map id_field (fst (create_items (run reqs) inputs)))"
proof -
  have ids: "map id_field (fst (create_items (run reqs) inputs))
           = map int [Suc (length (filter is_create reqs)) ..<
                      Suc (length (filter is_create reqs)) + length inputs]"
    using length_run [OF assms] create_items_ids [of "run reqs" inputs] by simp
  have "sorted_wrt (<) (map int [Suc (length (filter is_create reqs)) ..<
                      Suc (length (filter is_create reqs)) + length inputs])"
    by (simp only: sorted_wrt_map of_nat_less_iff sorted_wrt_upt)
  with ids show ?thesis by simp
qed

theorem create_item_ids_creation_order_witness:
  "map id_field (fst (create_items
      (run [CreateItem widget, UpdateItem 1 gizmo, GetItem 1]) [gadget, gizmo, widget]))
    = [2, 3, 4]"
proof -
  have h: "\<forall>r\<in>set [CreateItem widget, UpdateItem 1 gizmo, GetItem 1]. \<not> is_delete r"
    by simp
  have u: "[Suc (Suc 0)..<Suc (Suc (Suc (Suc (Suc 0))))] = [2, 3, 4]"
    by (simp add: upt_rec)
  from create_item_ids_creation_order [OF h, of "[gadget, gizmo, widget]"] u
  show ?thesis by simp
qed

section \<open>Update, lookup failure and the first match\<close>

text \<open>
  C5. In any registry that holds an item with id \<open>item_id\<close> (every reachable one
  included), \<^verbatim>\<open>update_item\<close> writes the new item at the position \<open>j\<close> of the first
  matching entry, returns an item with the same id and with the name,
  description and price of the request body, and a following \<^verbatim>\<open>get_item\<close> of that id
  returns the updated item.
\<close>

theorem update_item_replaces_in_place:
  assumes "item_id \<in> id_field ` set items_db"
  shows "\<exists>j u. j < length items_db \<and> id_field (items_db ! j) = item_id
           \<and> (\<forall>k<j. id_field (items_db ! k) \<noteq> item_id)
           \<and> update_item items_db item_id item_update = (Inr u, items_db[j := u])
           \<and> id_field u = item_id
           \<and> name u = ItemCreate.name item_update
           \<and> description u = ItemCreate.description item_update
           \<and> price u = ItemCreate.price item_update
           \<and> get_item (items_db[j := u]) item_id = (Inr u, items_db[j := u])"
proof -
  from assms obtain pre it post where db: "items_db = pre @ it # post"
    and it: "id_field it = item_id" and pre: "item_id \<notin> id_field ` set pre"
    by (rule first_match)
  let ?u = "Item_of item_id item_update"
  have u: "id_field ?u = item_id" by (simp add: Item_of_def)
  have upd: "items_db[length pre := ?u] = pre @ ?u # post"
    by (simp add: db)
  have "length pre < length items_db" by (simp add: db)
  moreover have "id_field (items_db ! length pre) = item_id" by (simp add: db it)
  moreover have "\<forall>k<length pre. id_field (items_db ! k) \<noteq> item_id"
    using pre by (auto simp: db nth_append)
  moreover have "update_item items_db item_id item_update = (Inr ?u, items_db[length pre := ?u])"
    unfolding upd unfolding db by (rule update_item_first [OF pre it])
  moreover have "get_item (items_db[length pre := ?u]) item_id
      = (Inr ?u, items_db[length pre := ?u])"
    unfolding upd by (rule get_item_first [OF pre u])
  moreover have "name ?u = ItemCreate.name item_update"
    "description ?u = ItemCreate.description item_update"
    "price ?u = ItemCreate.price item_update"
    by (simp_all add: Item_of_def)
  ultimately show ?thesis using u by blast
qed

theorem update_item_replaces_in_place_witness:
  "\<exists>j u. j < length (run [CreateItem widget, CreateItem gadget, DeleteItem 1, CreateItem gizmo])
      \<and> id_field (run [CreateItem widget, CreateItem gadget, DeleteItem 1, CreateItem gizmo] ! j) = 2
      \<and> (\<forall>k<j. id_field
            (run [CreateItem widget, CreateItem gadget, DeleteItem 1, CreateItem gizmo] ! k) \<noteq> 2)
      \<and> update_item (run [CreateItem widget, CreateItem gadget, DeleteItem 1, CreateItem gizmo])
            2 widget
          = (Inr u, (run [CreateItem widget, CreateItem gadget, DeleteItem 1, CreateItem gizmo])
                      [j := u])
      \<and> id_field u = 2
      \<and> name u = ItemCreate.name widget
      \<and> description u = ItemCreate.description widget
      \<and> price u = ItemCreate.price widget
      \<and> get_item ((run [CreateItem widget, CreateItem gadget, DeleteItem 1, CreateItem gizmo])
                     [j := u]) 2
          = (Inr u, (run [CreateItem widget, CreateItem gadget, DeleteItem 1, CreateItem gizmo])
                      [j := u])"
proof -
  have "2 \<in> id_field ` set (run [CreateItem widget, CreateItem gadget, DeleteItem 1,
      CreateItem gizmo])"
    by (simp add: run_dup Item_of_def)
  then show ?thesis by (rule update_item_replaces_in_place)
qed

text \<open>
  C8. For every registry and id, each of \<^verbatim>\<open>get_item\<close>, \<^verbatim>\<open>update_item\<close> and
  \<^verbatim>\<open>delete_item\<close> raises exactly when no item has the id; the error is then the 404
  "Item not found" and the registry is left as it was.
\<close>

theorem not_found_iff_absent:
  "((\<exists>e. fst (get_item items_db item_id) = Inl e) \<longleftrightarrow> item_id \<notin> id_field ` set items_db)
   \<and> ((\<exists>e. fst (update_item items_db item_id item_update) = Inl e)
        \<longleftrightarrow> item_id \<notin> id_field ` set items_db)
   \<and> ((\<exists>e. fst (delete_item items_db item_id) = Inl e)
        \<longleftrightarrow> item_id \<notin> id_field ` set items_db)
   \<and> (item_id \<notin> id_field ` set items_db \<longrightarrow>
        get_item items_db item_id = (Inl NotFound, items_db)
      \<and> update_item items_db item_id item_update = (Inl NotFound, items_db)
      \<and> delete_item items_db item_id = (Inl NotFound, items_db))"
proof (cases "item_id \<in> id_field ` set items_db")
  case True
  then obtain pre it post where db: "items_db = pre @ it # post"
    and it: "id_field it = item_id" and pre: "item_id \<notin> id_field ` set pre"
    by (rule first_match)
  show ?thesis
    using True
    by (simp add: db get_item_first [OF pre it] update_item_first [OF pre it]
        delete_item_first [OF pre it])
next
  case False
  then show ?thesis
    by (simp add: get_item_absent update_item_absent delete_item_absent)
qed

theorem not_found_iff_absent_witness:
  "get_item [Item_of 2 gadget, Item_of 2 gizmo] 1
      = (Inl NotFound, [Item_of 2 gadget, Item_of 2 gizmo])
   \<and> update_item [Item_of 2 gadget, Item_of 2 gizmo] 1 widget
      = (Inl NotFound, [Item_of 2 gadget, Item_of 2 gizmo])
   \<and> delete_item [Item_of 2 gadget, Item_of 2 gizmo] 1
      = (Inl NotFound, [Item_of 2 gadget, Item_of 2 gizmo])
   \<and> (\<nexists>e. fst (get_item [Item_of 2 gadget, Item_of 2 gizmo] 2) = Inl e)
   \<and> (\<nexists>e. fst (update_item [Item_of 2 gadget, Item_of 2 gizmo] 2 widget) = Inl e)
   \<and> (\<nexists>e. fst (delete_item [Item_of 2 gadget, Item_of 2 gizmo] 2) = Inl e)"
proof -
  have a: "(1::int) \<notin> id_field ` set [Item_of 2 gadget, Item_of 2 gizmo]"
    by (simp add: Item_of_def)
  have p: "(2::int) \<in> id_field ` set [Item_of 2 gadget, Item_of 2 gizmo]"
    by (simp add: Item_of_def)
  from a p
    not_found_iff_absent [of "[Item_of 2 gadget, Item_of 2 gizmo]" 1 widget]
    not_found_iff_absent [of "[Item_of 2 gadget, Item_of 2 gizmo]" 2 widget]
  show ?thesis by blast
qed

text \<open>
  C9. In every registry, also one where several items share an id, the three handlers
  act on the first entry in insertion order whose id matches: \<^verbatim>\<open>get_item\<close> returns
  it, \<^verbatim>\<open>update_item\<close> replaces it, \<^verbatim>\<open>delete_item\<close> removes it, and the entries
  after it (\<open>post\<close>, which may hold the same id again) stay as they were.
\<close>

theorem first_match_only:
  assumes "\<forall>x\<in>set pre. id_field x \<noteq> item_id" and "id_field it = item_id"
  shows "get_item (pre @ it # post) item_id = (Inr it, pre @ it # post)
       \<and> update_item (pre @ it # post) item_id item_update
           = (Inr (Item_of item_id item_update), pre @ Item_of item_id item_update # post)
       \<and> delete_item (pre @ it # post) item_id
           = (Inr (''Item '' @ str_int item_id @ '' deleted successfully''), pre @ post)"
proof -
  from assms(1) have pre: "item_id \<notin> id_field ` set pre" by blast
  show ?thesis
    by (simp add: get_item_first [OF pre assms(2)] update_item_first [OF pre assms(2)]
        delete_item_first [OF pre assms(2)])
qed

theorem first_match_only_witness:
  "get_item [Item_of 1 widget, Item_of 2 gadget, Item_of 2 gizmo, Item_of 3 widget] 2
      = (Inr (Item_of 2 gadget),
         [Item_of 1 widget, Item_of 2 gadget, Item_of 2 gizmo, Item_of 3 widget])
   \<and> update_item [Item_of 1 widget, Item_of 2 gadget, Item_of 2 gizmo, Item_of 3 widget] 2 widget
      = (Inr (Item_of 2 widget),
         [Item_of 1 widget, Item_of 2 widget, Item_of 2 gizmo, Item_of 3 widget])
   \<and> delete_item [Item_of 1 widget, Item_of 2 gadget, Item_of 2 gizmo, Item_of 3 widget] 2
      = (Inr ''Item 2 deleted successfully'',
         [Item_of 1 widget, Item_of 2 gizmo, Item_of 3 widget])"
proof -
  have h1: "\<forall>x\<in>set [Item_of 1 widget]. id_field x \<noteq> 2" by (simp add: Item_of_def)
  have h2: "id_field (Item_of 2 gadget) = 2" by (simp add: Item_of_def)
  have s: "str_int 2 = ''2''" by (simp add: str_int_def)
  from first_match_only [OF h1 h2, of "[Item_of 2 gizmo, Item_of 3 widget]" widget] s
  show ?thesis by simp
qed

text \<open>
  C10. When \<^verbatim>\<open>update_item\<close> succeeds, the registry afterwards is the old one with the
  entry at the first matching position \<open>j\<close> replaced: the length is the same, and every
  other position holds the item it held before, so the order is kept.
\<close>

theorem update_item_frame:
  assumes "update_item items_db item_id item_update = (Inr u, db')"
  shows "length db' = length items_db
       \<and> (\<exists>j<length items_db.
             id_field (items_db ! j) = item_id
           \<and> (\<forall>k<j. id_field (items_db ! k) \<noteq> item_id)
           \<and> db' = items_db[j := u]
           \<and> db' ! j = u
           \<and> (\<forall>k<length items_db. k \<noteq> j \<longrightarrow> db' ! k = items_db ! k))"
proof (cases "item_id \<in> id_field ` set items_db")
  case False
  with assms show ?thesis by (simp add: update_item_absent)
next
  case True
  then obtain pre it post where db: "items_db = pre @ it # post"
    and it: "id_field it = item_id" and pre: "item_id \<notin> id_field ` set pre"
    by (rule first_match)
  from assms have u: "u = Item_of item_id item_update" and db': "db' = pre @ u # post"
    by (auto simp: db update_item_first [OF pre it])
  have eq: "db' = items_db[length pre := u]" by (simp add: db db')
  have j: "length pre < length items_db" by (simp add: db)
  have m: "id_field (items_db ! length pre) = item_id" by (simp add: db it)
  have f: "\<forall>k<length pre. id_field (items_db ! k) \<noteq> item_id"
    using pre by (auto simp: db nth_append)
  have o: "\<forall>k<length items_db. k \<noteq> length pre \<longrightarrow> db' ! k = items_db ! k"
    by (simp add: eq)
  have n: "db' ! length pre = u" using j by (simp add: eq)
  have l: "length db' = length items_db" by (simp add: eq)
  from l j m f eq n o show ?thesis by blast
qed

theorem update_item_frame_witness:
  "length [Item_of 1 widget, Item_of 2 widget, Item_of 2 gizmo]
     = length [Item_of 1 widget, Item_of 2 gadget, Item_of 2 gizmo]
   \<and> (\<exists>j<length [Item_of 1 widget, Item_of 2 gadget, Item_of 2 gizmo].
         id_field ([Item_of 1 widget, Item_of 2 gadget, Item_of 2 gizmo] ! j) = 2
       \<and> (\<forall>k<j. id_field ([Item_of 1 widget, Item_of 2 gadget, Item_of 2 gizmo] ! k) \<noteq> 2)
       \<and> [Item_of 1 widget, Item_of 2 widget, Item_of 2 gizmo]
           = [Item_of 1 widget, Item_of 2 gadget, Item_of 2 gizmo][j := Item_of 2 widget]
       \<and> [Item_of 1 widget, Item_of 2 widget, Item_of 2 gizmo] ! j = Item_of 2 widget
       \<and> (\<forall>k<length [Item_of 1 widget, Item_of 2 gadget, Item_of 2 gizmo].
            k \<noteq> j \<longrightarrow> [Item_of 1 widget, Item_of 2 widget, Item_of 2 gizmo] ! k
                        = [Item_of 1 widget, Item_of 2 gadget, Item_of 2 gizmo] ! k))"
proof -
  have "update_item [Item_of 1 widget, Item_of 2 gadget, Item_of 2 gizmo] 2 widget
      = (Inr (Item_of 2 widget), [Item_of 1 widget, Item_of 2 widget, Item_of 2 gizmo])"
    by (simp add: update_item_def Item_of_def Let_def)
  then show ?thesis by (rule update_item_frame)
qed

section \<open>While nothing has been deleted\<close>

text \<open>
  Until the first delete request the ids in the registry are \<open>1, ..., n\<close> in order, so
  they are distinct and the next id is fresh. With a fresh id a lookup after create
  returns the created item; with distinct ids a lookup or a second delete after a delete
  raises the 404.
\<close>

lemma ids_update_item:
  "map id_field (snd (update_item db item_id upd)) = map id_field db"
proof (cases "item_id \<in> id_field ` set db")
  case True
  then obtain pre it post where "db = pre @ it # post" "id_field it = item_id"
    "item_id \<notin> id_field ` set pre" by (rule first_match)
  then show ?thesis by (simp add: update_item_first Item_of_def)
next
  case False
  then show ?thesis by (simp add: update_item_absent)
qed

lemma ids_handle:
  "\<not> is_delete r \<Longrightarrow> map id_field (handle db r)
     = map id_field db @ (if is_create r then [int (length db) + 1] else [])"
  by (cases r) (simp_all add: get_item_def create_item_def Let_def ids_update_item Item_of_def)

lemma ids_without_delete:
  "\<forall>r\<in>set reqs. \<not> is_delete r
   \<Longrightarrow> map id_field (run reqs) = map int [1 ..< Suc (length (filter is_create reqs))]"
proof (induction reqs rule: rev_induct)
  case Nil
  show ?case by (simp add: run_simps)
next
  case (snoc r reqs)
  then have ih: "map id_field (run reqs) = map int [1 ..< Suc (length (filter is_create reqs))]"
    and r: "\<not> is_delete r" and nd: "\<forall>r\<in>set reqs. \<not> is_delete r"
    by simp_all
  from ih have l: "length (run reqs) = length (filter is_create reqs)"
    using length_run [OF nd] by simp
  show ?case by (simp add: run_simps ids_handle [OF r] ih l)
qed

lemma distinct_ids_without_delete:
  "\<forall>r\<in>set reqs. \<not> is_delete r \<Longrightarrow> distinct (map id_field (run reqs))"
  by (simp add: ids_without_delete distinct_map inj_on_def)

lemma fresh_id_without_delete:
  "\<forall>r\<in>set reqs. \<not> is_delete r \<Longrightarrow> int (length (run reqs)) + 1 \<notin> id_field ` set (run reqs)"
proof -
  assume nd: "\<forall>r\<in>set reqs. \<not> is_delete r"
  have "id_field ` set (run reqs) = set (map id_field (run reqs))" by simp
  also have "\<dots> = int ` {1 ..< Suc (length (filter is_create reqs))}"
    by (simp only: ids_without_delete [OF nd] set_map set_upt)
  finally show ?thesis using length_run [OF nd] by auto
qed

lemma get_item_after_create_fresh:
  assumes "int (length db) + 1 \<notin> id_field ` set db"
  shows "get_item (snd (create_item db item)) (id_field (fst (create_item db item)))
       = (Inr (fst (create_item db item)), snd (create_item db item))"
proof -
  let ?new = "Item_of (int (length db) + 1) item"
  have c: "create_item db item = (?new, db @ [?new])" by (simp add: create_item_def Let_def)
  have i: "id_field ?new = int (length db) + 1" by (simp add: Item_of_def)
  from get_item_first [of "int (length db) + 1" db ?new "[]"] assms i c
  show ?thesis by simp
qed

lemma get_item_after_delete_distinct:
  assumes "distinct (map id_field db)" and "item_id \<in> id_field ` set db"
  shows "\<exists>msg db'. delete_item db item_id = (Inr msg, db') \<and> Suc (length db') = length db
        \<and> get_item db' item_id = (Inl NotFound, db')
        \<and> delete_item db' item_id = (Inl NotFound, db')"
proof -
  from assms(2) obtain pre it post where db: "db = pre @ it # post"
    and it: "id_field it = item_id" and pre: "item_id \<notin> id_field ` set pre"
    by (rule first_match)
  from assms(1) have "item_id \<notin> id_field ` set (pre @ post)"
    using pre it by (auto simp: db)
  then have "get_item (pre @ post) item_id = (Inl NotFound, pre @ post)"
    "delete_item (pre @ post) item_id = (Inl NotFound, pre @ post)"
    by (rule get_item_absent, rule delete_item_absent)
  moreover have "delete_item db item_id
     = (Inr (''Item '' @ str_int item_id @ '' deleted successfully''), pre @ post)"
    unfolding db by (rule delete_item_first [OF pre it])
  moreover have "Suc (length (pre @ post)) = length db" by (simp add: db)
  ultimately show ?thesis by blast
qed

section \<open>Ids after a delete\<close>

text \<open>
  C1 says that no reachable registry holds two items with one id and that the id of a
  deleted item is never handed out again. \<^verbatim>\<open>create_item\<close> takes the new id from the
  length of the list, so the run create, create, delete 1, create ends with two items of
  id 2, and the run create, delete 1, create hands out id 1 a second time.
\<close>

theorem create_item_reuses_id:
  "run [CreateItem widget, CreateItem gadget, DeleteItem 1, CreateItem gizmo]
     = [Item_of 2 gadget, Item_of 2 gizmo]
   \<and> map id_field (run [CreateItem widget, CreateItem gadget, DeleteItem 1, CreateItem gizmo])
     = [2, 2]
   \<and> \<not> distinct (map id_field
        (run [CreateItem widget, CreateItem gadget, DeleteItem 1, CreateItem gizmo]))
   \<and> run [CreateItem widget, DeleteItem 1] = []
   \<and> create_item (run [CreateItem widget, DeleteItem 1]) gadget
     = (Item_of 1 gadget, [Item_of 1 gadget])"
  by (simp add: run_def create_item_def delete_item_def Item_of_def Let_def)

text \<open>
  C4 says that \<^verbatim>\<open>get_item\<close> of the id \<^verbatim>\<open>create_item\<close> returned gives back the created
  item, in every reachable registry. After create, create, delete 1 the next create
  returns an item with id 2, and \<^verbatim>\<open>get_item 2\<close> then returns the older item with id 2,
  which differs from the one created.
\<close>

theorem get_item_after_create_returns_older_item:
  "create_item (run [CreateItem widget, CreateItem gadget, DeleteItem 1]) gizmo
     = (Item_of 2 gizmo, [Item_of 2 gadget, Item_of 2 gizmo])
   \<and> get_item (snd (create_item (run [CreateItem widget, CreateItem gadget, DeleteItem 1]) gizmo)) 2
     = (Inr (Item_of 2 gadget), [Item_of 2 gadget, Item_of 2 gizmo])
   \<and> Item_of 2 gadget \<noteq> Item_of 2 gizmo"
proof -
  have "create_item (run [CreateItem widget, CreateItem gadget, DeleteItem 1]) gizmo
     = (Item_of 2 gizmo, [Item_of 2 gadget, Item_of 2 gizmo])"
    by (simp add: run_two_one_deleted create_item_def Let_def)
  moreover have "get_item [Item_of 2 gadget, Item_of 2 gizmo] 2
     = (Inr (Item_of 2 gadget), [Item_of 2 gadget, Item_of 2 gizmo])"
    by (simp add: get_item_def Item_of_def)
  moreover have "Item_of 2 gadget \<noteq> Item_of 2 gizmo"
    by (simp add: Item_of_def gadget_def gizmo_def)
  ultimately show ?thesis by simp
qed

text \<open>
  C6 says that in every reachable registry holding id \<open>i\<close>, \<^verbatim>\<open>get_item i\<close> raises the
  404 after \<^verbatim>\<open>delete_item i\<close>. In the registry reached by create, create, delete 1,
  create, \<^verbatim>\<open>delete_item 2\<close> succeeds and removes one entry, and \<^verbatim>\<open>get_item 2\<close> then
  still succeeds, with the second item of id 2.
\<close>

theorem get_item_after_delete_still_succeeds:
  "2 \<in> id_field ` set (run [CreateItem widget, CreateItem gadget, DeleteItem 1, CreateItem gizmo])
   \<and> delete_item (run [CreateItem widget, CreateItem gadget, DeleteItem 1, CreateItem gizmo]) 2
     = (Inr ''Item 2 deleted successfully'', [Item_of 2 gizmo])
   \<and> get_item (snd (delete_item
        (run [CreateItem widget, CreateItem gadget, DeleteItem 1, CreateItem gizmo]) 2)) 2
     = (Inr (Item_of 2 gizmo), [Item_of 2 gizmo])"
  by (simp add: run_dup delete_item_def get_item_def Item_of_def str_int_def)

text \<open>
  C7 says that in every reachable registry holding id \<open>i\<close>, the second of two
  \<^verbatim>\<open>delete_item i\<close> calls raises the 404. In the registry reached by create, create,
  delete 1, create, both \<^verbatim>\<open>delete_item 2\<close> calls succeed.
\<close>

theorem delete_item_twice_both_succeed:
  "2 \<in> id_field ` set (run [CreateItem widget, CreateItem gadget, DeleteItem 1, CreateItem gizmo])
   \<and> delete_item (run [CreateItem widget, CreateItem gadget, DeleteItem 1, CreateItem gizmo]) 2
     = (Inr ''Item 2 deleted successfully'', [Item_of 2 gizmo])
   \<and> delete_item (snd (delete_item
        (run [CreateItem widget, CreateItem gadget, DeleteItem 1, CreateItem gizmo]) 2)) 2
     = (Inr ''Item 2 deleted successfully'', [])"
  by (simp add: run_dup delete_item_def Item_of_def str_int_def)

end
